theory Spec2Isabelle
  imports Complex_Main "HOL-Library.Sublist"
begin

section \<open>Stair dimensioning and norm checks of App.jsx\<close>

text \<open>
  The two pure functions of \<^verbatim>\<open>src/App.jsx\<close>, \<^verbatim>\<open>calculateStairs\<close> (lines 55-75) and
  \<^verbatim>\<open>checkNorms\<close> (lines 77-89), with the helper \<^verbatim>\<open>clamp\<close> (line 53).

  Numbers. A JavaScript number is modelled as a \<^typ>\<open>real\<close>: arithmetic is exact, the
  rounding error of IEEE doubles, the infinities and the negative zero are not modelled.
  The exact reading stands for the code where the numbers are small against \<open>2\<^sup>5\<^sup>3\<close>: there
  doubles hold every integer, \<^verbatim>\<open>steps += 1\<close> and \<^verbatim>\<open>steps -= 1\<close> are exact, and the
  rounding error is far below the one decimal place of the output. Beyond that the code
  differs: lines 59-63 are modelled a second time in double precision below
  (\<open>convergedSteps64\<close>), where a loop that does not return is the value \<open>None\<close>.
  \<^verbatim>\<open>totalRise\<close> is a real (the form passes \<^verbatim>\<open>Number(value)\<close> of a numeric input field,
  zero when the field is empty). The three arguments that the code tests for truthiness
  (\<^verbatim>\<open>desiredRiser\<close>, \<^verbatim>\<open>desiredTread\<close>, \<^verbatim>\<open>landingDepth\<close>) are \<^typ>\<open>real option\<close>:
  \<open>None\<close> stands for \<^verbatim>\<open>undefined\<close> and for \<^verbatim>\<open>NaN\<close>, which the code cannot tell apart
  (both are falsy in \<^verbatim>\<open>x || d\<close> and in \<^verbatim>\<open>x && x > 0\<close>).
  \<^verbatim>\<open>steps\<close> is an \<^typ>\<open>int\<close>, as the value of \<^verbatim>\<open>Math.round\<close>.

  Strings. A message is the list of the UTF-8 bytes of the source literal; the letters
  outside ASCII are named constants below.
\<close>

subsection \<open>Built-in operations of the language\<close>

text \<open>\<^verbatim>\<open>v || d\<close> on a number or undefined \<open>v\<close>: zero, NaN and undefined are falsy.\<close>

definition js_or :: "real option \<Rightarrow> real \<Rightarrow> real" where
  "js_or v d = (case v of None \<Rightarrow> d | Some x \<Rightarrow> if x = 0 then d else x)"

text \<open>\<^verbatim>\<open>Math.round\<close>: the nearest integer, a tie going up.\<close>

definition Math_round :: "real \<Rightarrow> int" where
  "Math_round x = \<lfloor>x + 1 / 2\<rfloor>"

text \<open>
  \<^verbatim>\<open>+x.toFixed(1)\<close>: the sign is split off, then the integer \<open>n\<close> with \<open>n / 10\<close> nearest
  to the magnitude is taken, the larger one at a tie; from \<open>10\<^sup>2\<^sup>1\<close> on \<^verbatim>\<open>toFixed\<close> prints the
  number itself.
\<close>

definition toFixed1 :: "real \<Rightarrow> real" where
  "toFixed1 x =
     (if 10 ^ 21 \<le> \<bar>x\<bar> then x
      else if x < 0 then - (of_int \<lfloor>- x * 10 + 1 / 2\<rfloor> / 10)
      else of_int \<lfloor>x * 10 + 1 / 2\<rfloor> / 10)"

text \<open>\<^verbatim>\<open>Math.atan2(y, x)\<close>, the angle of the point \<open>(x, y)\<close> in \<open>(-\<pi>, \<pi>]\<close>.\<close>

definition Math_atan2 :: "real \<Rightarrow> real \<Rightarrow> real" where
  "Math_atan2 y x =
     (if 0 < x then arctan (y / x)
      else if x < 0 then (if 0 \<le> y then arctan (y / x) + pi else arctan (y / x) - pi)
      else if 0 < y then pi / 2
      else if y < 0 then - (pi / 2)
      else 0)"

text \<open>
  Number to string, as a template literal does it, for a number below \<open>10\<^sup>2\<^sup>1\<close> with a
  short decimal expansion (every value \<^verbatim>\<open>toFixed(1)\<close> or \<^verbatim>\<open>Math.round\<close> returns is one):
  the digits of the integer part, and the fractional digits after a point when there are
  any. The exponent notation of very large and very small numbers is not modelled.
\<close>

definition digit_char :: "nat \<Rightarrow> char" where
  "digit_char d = ''0123456789'' ! (d mod 10)"

function string_of_nat :: "nat \<Rightarrow> string" where
  "string_of_nat n =
     (if n < 10 then [digit_char n] else string_of_nat (n div 10) @ [digit_char (n mod 10)])"
  by pat_completeness auto
termination
  by (relation "measure id") auto

fun frac_digits :: "nat \<Rightarrow> real \<Rightarrow> string" where
  "frac_digits 0 f = []"
| "frac_digits (Suc k) f =
     (if f = 0 then []
      else digit_char (nat \<lfloor>10 * f\<rfloor>) # frac_digits k (10 * f - of_int \<lfloor>10 * f\<rfloor>))"

definition Number_toString :: "real \<Rightarrow> string" where
  "Number_toString x =
     (let a = \<bar>x\<bar>; f = a - of_int \<lfloor>a\<rfloor>
      in (if x < 0 then ''-'' else []) @ string_of_nat (nat \<lfloor>a\<rfloor>)
         @ (if f = 0 then [] else ''.'' @ frac_digits 20 f))"

subsection \<open>calculateStairs\<close>

definition clamp :: "real \<Rightarrow> real \<Rightarrow> real \<Rightarrow> real" where
  "clamp v a b = max a (min b v)"

record geometry =
  steps :: int
  riser :: real
  tread :: real
  totalRun :: real
  stringerLength :: real
  angleDeg :: real

text \<open>Lines 57-58: the target riser.\<close>

definition targetRiser :: "real option \<Rightarrow> real" where
  "targetRiser desiredRiser = clamp (js_or desiredRiser 170) 120 210"

text \<open>Lines 59-60: the first step count.\<close>

definition initialSteps :: "real \<Rightarrow> real \<Rightarrow> int" where
  "initialSteps rise tr = (let s = Math_round (rise / tr) in if s < 1 then 1 else s)"

text \<open>
  Lines 62 and 63: the two \<^verbatim>\<open>while\<close> loops, on the pair of the variables \<^verbatim>\<open>steps\<close> and
  \<^verbatim>\<open>riser\<close> they assign. Here \<^verbatim>\<open>steps\<close> is an integer and the division is exact, which is
  the code for step counts below \<open>2\<^sup>5\<^sup>3\<close>; \<open>loopA64\<close> and \<open>loopB64\<close> below are the loops on
  doubles, where \<^verbatim>\<open>steps -= 1\<close> can leave a large \<^verbatim>\<open>steps\<close> unchanged.
\<close>

function loopA :: "real \<Rightarrow> int \<times> real \<Rightarrow> int \<times> real" where
  "loopA rise (s, r) =
     (if r > 210 \<and> s < 200 then loopA rise (s + 1, rise / of_int (s + 1)) else (s, r))"
  by pat_completeness auto
termination
  by (relation "measure (\<lambda>(rise, s, r). nat (200 - s))") auto

function loopB :: "real \<Rightarrow> int \<times> real \<Rightarrow> int \<times> real" where
  "loopB rise (s, r) =
     (if r < 120 \<and> s > 1 then loopB rise (s - 1, rise / of_int (s - 1)) else (s, r))"
  by pat_completeness auto
termination
  by (relation "measure (\<lambda>(rise, s, r). nat s)") auto

text \<open>Lines 59-63: the step count and riser on which the loops settle.\<close>

definition convergedSteps :: "real \<Rightarrow> real option \<Rightarrow> int \<times> real" where
  "convergedSteps rise desiredRiser =
     (let s = initialSteps rise (targetRiser desiredRiser)
      in loopB rise (loopA rise (s, rise / of_int s)))"

text \<open>Line 69: \<^verbatim>\<open>(landingDepth && landingDepth > 0) ? landingDepth : 900\<close>.\<close>

definition landingOrDefault :: "real option \<Rightarrow> real" where
  "landingOrDefault landingDepth =
     (case landingDepth of
        None \<Rightarrow> 900
      | Some d \<Rightarrow> if d \<noteq> 0 \<and> d > 0 then d else 900)"

text \<open>
  Lines 56-71: the local variables at the \<^verbatim>\<open>return\<close>, before they are rounded, as a
  record of the same shape as the result. The squares and the root of line 70 are exact
  here; on doubles they overflow for a run or rise beyond about \<open>10\<^sup>1\<^sup>5\<^sup>4\<close> and are coarser than
  one decimal place from about \<open>3 * 10\<^sup>1\<^sup>5\<close>, so the property of the stringer is stated for
  bounded inputs.
\<close>

definition stairLocals ::
  "real \<Rightarrow> real option \<Rightarrow> real option \<Rightarrow> string \<Rightarrow> real option \<Rightarrow> geometry" where
  "stairLocals totalRise desiredRiser desiredTread stairType landingDepth =
     (let rise = max 10 totalRise;
          (s, r) = convergedSteps rise desiredRiser;
          tFromRule = 600 - 2 * r;
          t0 = clamp (js_or desiredTread tFromRule) 160 400;
          t = (if stairType = ''spiral'' then min t0 240 else t0);
          run0 = t * of_int s;
          run = (if stairType = ''l'' \<or> stairType = ''u''
                 then run0 + landingOrDefault landingDepth else run0)
      in \<lparr>steps = s, riser = r, tread = t, totalRun = run,
          stringerLength = sqrt (run * run + rise * rise),
          angleDeg = Math_atan2 rise run * 180 / pi\<rparr>)"

text \<open>Lines 72-74: the returned object, each real field through \<^verbatim>\<open>+x.toFixed(1)\<close>.\<close>

definition calculateStairs ::
  "real \<Rightarrow> real option \<Rightarrow> real option \<Rightarrow> string \<Rightarrow> real option \<Rightarrow> geometry" where
  "calculateStairs totalRise desiredRiser desiredTread stairType landingDepth =
     (let v = stairLocals totalRise desiredRiser desiredTread stairType landingDepth
      in \<lparr>steps = steps v, riser = toFixed1 (riser v), tread = toFixed1 (tread v),
          totalRun = toFixed1 (totalRun v),
          stringerLength = toFixed1 (stringerLength v),
          angleDeg = toFixed1 (angleDeg v)\<rparr>)"

subsection \<open>checkNorms\<close>

text \<open>The letters of the messages outside ASCII, as UTF-8.\<close>

definition pl_a :: string where "pl_a = [CHR 0xC4, CHR 0x85]"
definition pl_c :: string where "pl_c = [CHR 0xC4, CHR 0x87]"
definition pl_e :: string where "pl_e = [CHR 0xC4, CHR 0x99]"
definition pl_l :: string where "pl_l = [CHR 0xC5, CHR 0x82]"
definition pl_o :: string where "pl_o = [CHR 0xC3, CHR 0xB3]"
definition pl_s :: string where "pl_s = [CHR 0xC5, CHR 0x9B]"
definition pl_z :: string where "pl_z = [CHR 0xC5, CHR 0xBC]"
definition em_dash :: string where "em_dash = [CHR 0xE2, CHR 0x80, CHR 0x94]"
definition en_dash :: string where "en_dash = [CHR 0xE2, CHR 0x80, CHR 0x93]"
definition approx_sign :: string where "approx_sign = [CHR 0xE2, CHR 0x89, CHR 0x88]"
definition degree_sign :: string where "degree_sign = [CHR 0xC2, CHR 0xB0]"

text \<open>The six messages, lines 82-87.\<close>

definition msgRiserBelow120 :: string where
  "msgRiserBelow120 =
     ''Wysoko'' @ pl_s @ pl_c @ '' podstopnia poni'' @ pl_z @ ''ej 120 mm '' @ em_dash
     @ '' nietypowo niska.''"

definition msgRiserBelow150 :: string where
  "msgRiserBelow150 =
     ''Wysoko'' @ pl_s @ pl_c @ '' podstopnia < 150 mm '' @ em_dash @ '' poni'' @ pl_z
     @ ''ej zalecanego zakresu ergonomicznego.''"

definition msgRiserAbove200 :: string where
  "msgRiserAbove200 =
     ''Wysoko'' @ pl_s @ pl_c @ '' podstopnia > 200 mm '' @ em_dash
     @ '' przekracza typowe limity i mo'' @ pl_z @ ''e by'' @ pl_c @ '' niebezpieczna.''"

definition msgTreadBelow240 :: string where
  "msgTreadBelow240 =
     ''G'' @ pl_l @ pl_e @ ''boko'' @ pl_s @ pl_c @ '' biegu < 240 mm '' @ em_dash @ '' mo''
     @ pl_z @ ''e by'' @ pl_c @ '' zbyt ma'' @ pl_l @ ''a dla komfortu chodu.''"

definition msgBlondel :: "real \<Rightarrow> string" where
  "msgBlondel sumRT =
     ''Zasada Blondela (2R + T) poza zakresem 550'' @ en_dash @ ''700 mm (obecnie ''
     @ Number_toString (of_int (Math_round sumRT)) @ '' mm). Optimum '' @ approx_sign
     @ '' 600 mm.''"

definition msgSteep :: "real \<Rightarrow> string" where
  "msgSteep a =
     ''K'' @ pl_a @ ''t schod'' @ pl_o @ ''w ('' @ Number_toString a @ degree_sign
     @ '') wi'' @ pl_e @ ''kszy ni'' @ pl_z @ '' 45'' @ degree_sign @ '' '' @ em_dash
     @ '' strome.''"

text \<open>\<^verbatim>\<open>if (c) warnings.push(m)\<close> on the list built so far.\<close>

definition pushIf :: "bool \<Rightarrow> string \<Rightarrow> string list \<Rightarrow> string list" where
  "pushIf c m warnings = (if c then warnings @ [m] else warnings)"

definition checkNorms :: "geometry \<Rightarrow> string list" where
  "checkNorms result =
     (let r = riser result;
          t = tread result;
          sumRT = 2 * r + t;
          w1 = pushIf (r < 120) msgRiserBelow120 [];
          w2 = pushIf (r < 150) msgRiserBelow150 w1;
          w3 = pushIf (r > 200) msgRiserAbove200 w2;
          w4 = pushIf (t < 240) msgTreadBelow240 w3;
          w5 = pushIf (sumRT < 550 \<or> sumRT > 700) (msgBlondel sumRT) w4;
          w6 = pushIf (angleDeg result > 45) (msgSteep (angleDeg result)) w5
      in w6)"

subsection \<open>Lines 56-63 in double precision\<close>

text \<open>
  Rounding to the nearest double (53 significant bits, a tie to the even significand) of
  a real in the normal range; overflow to infinity and subnormal numbers are not modelled.
  \<open>roundEven\<close> is the nearest integer with a tie going to the even one.
\<close>

definition roundEven :: "real \<Rightarrow> int" where
  "roundEven x =
     (let f = \<lfloor>x\<rfloor>; d = x - of_int f
      in if d < 1 / 2 then f else if 1 / 2 < d then f + 1 else if even f then f else f + 1)"

definition toDouble :: "real \<Rightarrow> real" where
  "toDouble x =
     (if x = 0 then 0
      else let u = 2 powr (of_int \<lfloor>log 2 \<bar>x\<bar>\<rfloor> - 52) in u * of_int (roundEven (x / u)))"

text \<open>
  The two loops on doubles: \<^verbatim>\<open>steps\<close> is a double, and each assignment rounds. A loop that
  never exits has no value: the result is \<open>None\<close>.
\<close>

partial_function (option) loopA64 :: "real \<Rightarrow> real \<times> real \<Rightarrow> (real \<times> real) option" where
  "loopA64 rise p =
     (if snd p > 210 \<and> fst p < 200
      then loopA64 rise (toDouble (fst p + 1), toDouble (rise / toDouble (fst p + 1)))
      else Some p)"

partial_function (option) loopB64 :: "real \<Rightarrow> real \<times> real \<Rightarrow> (real \<times> real) option" where
  "loopB64 rise p =
     (if snd p < 120 \<and> fst p > 1
      then loopB64 rise (toDouble (fst p - 1), toDouble (rise / toDouble (fst p - 1)))
      else Some p)"

text \<open>
  Lines 59-63 on doubles, for the floored rise of line 56 and the target riser of lines
  57-58 (both exact in doubles). \<^verbatim>\<open>Math.round\<close> of a double is an integer that is a double.
\<close>

definition convergedSteps64 :: "real \<Rightarrow> real option \<Rightarrow> (real \<times> real) option" where
  "convergedSteps64 rise desiredRiser =
     (let s0 = of_int (Math_round (toDouble (rise / targetRiser desiredRiser)));
          s = (if s0 < 1 then 1 else s0)
      in Option.bind (loopA64 rise (s, toDouble (rise / s))) (loopB64 rise))"

subsection \<open>Notions the properties are stated with\<close>

text \<open>
  The six messages in the order of their checks, for the numbers of a given geometry, and
  the number of the check (1 to 6) that a message of this geometry belongs to; 0 for any
  other string.
\<close>

definition sixMessages :: "geometry \<Rightarrow> string list" where
  "sixMessages result =
     [msgRiserBelow120, msgRiserBelow150, msgRiserAbove200, msgTreadBelow240,
      msgBlondel (2 * riser result + tread result), msgSteep (angleDeg result)]"

definition checkNumber :: "geometry \<Rightarrow> string \<Rightarrow> nat" where
  "checkNumber result m =
     (if m = msgRiserBelow120 then 1
      else if m = msgRiserBelow150 then 2
      else if m = msgRiserAbove200 then 3
      else if m = msgTreadBelow240 then 4
      else if m = msgBlondel (2 * riser result + tread result) then 5
      else if m = msgSteep (angleDeg result) then 6
      else 0)"

section \<open>Properties\<close>

subsection \<open>Evaluation of the built-in operations\<close>

lemma Number_toString_50: "Number_toString 50 = ''50''"
  by (simp add: Number_toString_def digit_char_def)

lemma Number_toString_400: "Number_toString 400 = ''400''"
  by (simp add: Number_toString_def digit_char_def)

subsection \<open>The falsy riser preference\<close>

text \<open>
  Claim C8. A \<^verbatim>\<open>desiredRiser\<close> of zero gives the same geometry as an absent one, for every
  total rise, tread preference, stair type and landing depth: either way the target riser
  is the default 170, which the clamp to [120, 210] leaves as it is.
\<close>

theorem zero_desiredRiser_is_absent:
  "calculateStairs totalRise (Some 0) desiredTread stairType landingDepth
     = calculateStairs totalRise None desiredTread stairType landingDepth
   \<and> js_or (Some 0) 170 = 170 \<and> js_or None 170 = 170
   \<and> targetRiser (Some 0) = 170 \<and> targetRiser None = 170"
  by (simp add: calculateStairs_def stairLocals_def convergedSteps_def targetRiser_def
      js_or_def clamp_def)

subsection \<open>The norm checker\<close>

text \<open>
  Claim C4. For a geometry with riser 100, tread 200 and angle 50 (the other fields
  arbitrary) \<open>checkNorms\<close> returns exactly five warnings: those of checks 1, 2, 4, 5 and 6
  in this order. Check 3 does not fire, and the message of check 5 shows the sum
  2 * 100 + 200 = 400.
\<close>

theorem checkNorms_100_200_50:
  "checkNorms \<lparr>steps = s, riser = 100, tread = 200, totalRun = run,
               stringerLength = len, angleDeg = 50\<rparr>
     = [msgRiserBelow120, msgRiserBelow150, msgTreadBelow240,
        msgBlondel (2 * 100 + 200), msgSteep 50]
   \<and> length (checkNorms \<lparr>steps = s, riser = 100, tread = 200, totalRun = run,
               stringerLength = len, angleDeg = 50\<rparr>) = 5
   \<and> msgBlondel (2 * 100 + 200)
       = ''Zasada Blondela (2R + T) poza zakresem 550'' @ en_dash
         @ ''700 mm (obecnie 400 mm). Optimum '' @ approx_sign @ '' 600 mm.''
   \<and> msgSteep 50
       = ''K'' @ pl_a @ ''t schod'' @ pl_o @ ''w (50'' @ degree_sign @ '') wi'' @ pl_e
         @ ''kszy ni'' @ pl_z @ '' 45'' @ degree_sign @ '' '' @ em_dash @ '' strome.''"
  by (simp add: checkNorms_def pushIf_def msgBlondel_def msgSteep_def Math_round_def
      Number_toString_50 Number_toString_400)

text \<open>
  Claim C10. Two geometry records that agree on riser, tread and angle get the same
  warnings: \<open>checkNorms\<close> does not read the step count, the total run or the stringer
  length.
\<close>

theorem checkNorms_reads_three_fields:
  "riser g = riser h \<Longrightarrow> tread g = tread h \<Longrightarrow> angleDeg g = angleDeg h
   \<Longrightarrow> checkNorms g = checkNorms h"
  by (simp add: checkNorms_def)

theorem checkNorms_reads_three_fields_witness:
  "riser \<lparr>steps = 16, riser = 100, tread = 200, totalRun = 3200,
          stringerLength = 4000, angleDeg = 50\<rparr>
     = riser \<lparr>steps = 1, riser = 100, tread = 200, totalRun = 7,
          stringerLength = 0, angleDeg = 50\<rparr>
   \<and> checkNorms \<lparr>steps = 16, riser = 100, tread = 200, totalRun = 3200,
          stringerLength = 4000, angleDeg = 50\<rparr>
     = checkNorms \<lparr>steps = 1, riser = 100, tread = 200, totalRun = 7,
          stringerLength = 0, angleDeg = 50\<rparr>"
  using checkNorms_reads_three_fields
    [of "\<lparr>steps = 16, riser = 100, tread = 200, totalRun = 3200,
          stringerLength = 4000, angleDeg = 50\<rparr>"
        "\<lparr>steps = 1, riser = 100, tread = 200, totalRun = 7,
          stringerLength = 0, angleDeg = 50\<rparr>"]
  by simp

lemmas letters_def =
  pl_a_def pl_c_def pl_e_def pl_l_def pl_o_def pl_s_def pl_z_def
  em_dash_def en_dash_def approx_sign_def degree_sign_def

lemmas msg_defs =
  msgRiserBelow120_def msgRiserBelow150_def msgRiserAbove200_def msgTreadBelow240_def
  msgBlondel_def msgSteep_def letters_def

lemma sixMessages_distinct: "distinct (sixMessages g)"
  by (simp add: sixMessages_def msg_defs)

lemma sixMessages_ordered:
  "sorted_wrt (\<lambda>m m'. checkNumber g m < checkNumber g m') (sixMessages g)"
  by (simp add: sixMessages_def checkNumber_def msg_defs)

lemma sixMessages_templates:
  "set (sixMessages g)
     \<subseteq> {msgRiserBelow120, msgRiserBelow150, msgRiserAbove200, msgTreadBelow240}
       \<union> range msgBlondel \<union> range msgSteep"
  by (auto simp: sixMessages_def)

lemma subseq_sorted_wrt: "subseq xs ys \<Longrightarrow> sorted_wrt P ys \<Longrightarrow> sorted_wrt P xs"
proof (induction rule: list_emb.induct)
  case (list_emb_Nil ys)
  then show ?case by simp
next
  case (list_emb_Cons xs ys y)
  then show ?case by simp
next
  case (list_emb_Cons2 x y xs ys)
  then show ?case using list_emb_set [of "(=)" xs ys] by auto
qed

lemma subseq_keeps_distinct: "subseq xs ys \<Longrightarrow> distinct ys \<Longrightarrow> distinct xs"
proof (induction rule: list_emb.induct)
  case (list_emb_Nil ys)
  then show ?case by simp
next
  case (list_emb_Cons xs ys y)
  then show ?case by simp
next
  case (list_emb_Cons2 x y xs ys)
  then show ?case using list_emb_set [of "(=)" xs ys] by auto
qed

lemma subseq_pushIf: "subseq ws ms \<Longrightarrow> subseq (pushIf c m ws) (ms @ [m])"
  using list_emb_append_mono [of "(=)" ws ms "[]" "[m]"]
    list_emb_append_mono [of "(=)" ws ms "[m]" "[m]"]
  by (simp add: pushIf_def)

lemma checkNorms_subseq: "subseq (checkNorms g) (sixMessages g)"
proof -
  have "subseq (checkNorms g)
     (((((([] @ [msgRiserBelow120]) @ [msgRiserBelow150]) @ [msgRiserAbove200])
        @ [msgTreadBelow240]) @ [msgBlondel (2 * riser g + tread g)])
      @ [msgSteep (angleDeg g)])"
    unfolding checkNorms_def Let_def
    by (intro subseq_pushIf) simp
  then show ?thesis by (simp add: sixMessages_def)
qed

text \<open>
  Claim C9. For every geometry record the list \<open>checkNorms\<close> returns is a subsequence of the
  six messages in check order: it has at most six entries, no entry twice, every entry is
  one of the four fixed strings or an instance of the two templates, and the check numbers
  of its entries increase along the list (the six messages being pairwise different).
\<close>

theorem checkNorms_subsequence_of_six:
  "subseq (checkNorms g) (sixMessages g)
   \<and> length (checkNorms g) \<le> 6
   \<and> distinct (checkNorms g)
   \<and> set (checkNorms g)
       \<subseteq> {msgRiserBelow120, msgRiserBelow150, msgRiserAbove200, msgTreadBelow240}
         \<union> range msgBlondel \<union> range msgSteep
   \<and> distinct (sixMessages g)
   \<and> sorted_wrt (\<lambda>m m'. checkNumber g m < checkNumber g m') (checkNorms g)"
proof -
  note s = checkNorms_subseq [of g]
  have "length (checkNorms g) \<le> length (sixMessages g)"
    using s by (rule list_emb_length)
  then have l: "length (checkNorms g) \<le> 6"
    by (simp add: sixMessages_def)
  have d: "distinct (checkNorms g)"
    using s sixMessages_distinct by (rule subseq_keeps_distinct)
  have "set (checkNorms g) \<subseteq> set (sixMessages g)"
    using list_emb_set [OF s] by auto
  then have t: "set (checkNorms g)
       \<subseteq> {msgRiserBelow120, msgRiserBelow150, msgRiserAbove200, msgTreadBelow240}
         \<union> range msgBlondel \<union> range msgSteep"
    using sixMessages_templates [of g] by blast
  have o: "sorted_wrt (\<lambda>m m'. checkNumber g m < checkNumber g m') (checkNorms g)"
    using s sixMessages_ordered by (rule subseq_sorted_wrt)
  show ?thesis
    using s l d t o sixMessages_distinct by blast
qed

subsection \<open>Tread and total run\<close>

lemma toFixed1_le_240: "0 \<le> x \<Longrightarrow> x \<le> 240 \<Longrightarrow> toFixed1 x \<le> 240"
  unfolding toFixed1_def by auto

text \<open>
  Claim C6. For the stair type \<^verbatim>\<open>'spiral'\<close> the returned tread is at most 240, whatever
  the other arguments are, a \<^verbatim>\<open>desiredTread\<close> above 240 included.
\<close>

theorem spiral_tread_le_240:
  "tread (calculateStairs totalRise desiredRiser desiredTread ''spiral'' landingDepth) \<le> 240"
  apply (simp add: calculateStairs_def stairLocals_def Let_def split: prod.splits)
  apply (intro allI impI toFixed1_le_240)
   apply (auto simp: clamp_def)
  done

subsection \<open>The convergence loops\<close>

declare loopA.simps [simp del] loopB.simps [simp del]

lemma loopA_props:
  "snd p = rise / of_int (fst p) \<Longrightarrow> 1 \<le> fst p \<Longrightarrow> loopA rise p = (s', r') \<Longrightarrow>
     r' = rise / of_int s' \<and> fst p \<le> s' \<and> s' \<le> max (fst p) 200 \<and> (r' \<le> 210 \<or> 200 \<le> s')
     \<and> (fst p < s' \<longrightarrow> 210 < rise / of_int (s' - 1))"
proof (induction rise p rule: loopA.induct)
  case (1 rise s r)
  show ?case
  proof (cases "r > 210 \<and> s < 200")
    case True
    then have eq: "loopA rise (s + 1, rise / of_int (s + 1)) = (s', r')"
      using "1.prems"(3) by (simp add: loopA.simps [of rise s r])
    have ih: "r' = rise / of_int s' \<and> s + 1 \<le> s' \<and> s' \<le> max (s + 1) 200 \<and> (r' \<le> 210 \<or> 200 \<le> s')
     \<and> (s + 1 < s' \<longrightarrow> 210 < rise / of_int (s' - 1))"
      using "1.IH" [OF True _ _ eq] "1.prems"(2) by auto
    show ?thesis
    proof (cases "s + 1 = s'")
      case True
      then show ?thesis using ih \<open>r > 210 \<and> s < 200\<close> "1.prems"(1) by auto
    next
      case False
      then show ?thesis using ih True by auto
    qed
  next
    case False
    then have "(s', r') = (s, r)"
      using "1.prems"(3) by (auto simp add: loopA.simps [of rise s r])
    then show ?thesis using False "1.prems" by auto
  qed
qed

lemma loopB_props:
  "snd p = rise / of_int (fst p) \<Longrightarrow> 1 \<le> fst p \<Longrightarrow> loopB rise p = (s', r') \<Longrightarrow>
     r' = rise / of_int s' \<and> 1 \<le> s' \<and> s' \<le> fst p \<and> (120 \<le> r' \<or> s' = 1)
     \<and> (s' < fst p \<longrightarrow> rise / of_int (s' + 1) < 120)"
proof (induction rise p rule: loopB.induct)
  case (1 rise s r)
  show ?case
  proof (cases "r < 120 \<and> s > 1")
    case True
    then have eq: "loopB rise (s - 1, rise / of_int (s - 1)) = (s', r')"
      using "1.prems"(3) by (simp add: loopB.simps [of rise s r])
    have ih: "r' = rise / of_int s' \<and> 1 \<le> s' \<and> s' \<le> s - 1 \<and> (120 \<le> r' \<or> s' = 1)
     \<and> (s' < s - 1 \<longrightarrow> rise / of_int (s' + 1) < 120)"
      using "1.IH" [OF True _ _ eq] True by auto
    show ?thesis
    proof (cases "s - 1 = s'")
      case True
      then have "s' + 1 = s" by simp
      then show ?thesis using ih \<open>r < 120 \<and> s > 1\<close> "1.prems"(1) by auto
    next
      case False
      then show ?thesis using ih True by auto
    qed
  next
    case False
    then have "(s', r') = (s, r)"
      using "1.prems"(3) by (auto simp add: loopB.simps [of rise s r])
    then show ?thesis using False "1.prems" by auto
  qed
qed

lemma loopA_bound: "fst (loopA rise p) \<le> max (fst p) 200"
proof (induction rise p rule: loopA.induct)
  case (1 rise s r)
  show ?case
  proof (cases "r > 210 \<and> s < 200")
    case True
    then show ?thesis using "1.IH" by (simp add: loopA.simps [of rise s r])
  next
    case False
    then show ?thesis by (auto simp add: loopA.simps [of rise s r])
  qed
qed

lemma initialSteps_ge_1: "1 \<le> initialSteps rise tr"
  by (simp add: initialSteps_def Let_def)

lemma convergedSteps_props:
  assumes "convergedSteps rise dR = (s, r)"
  shows "1 \<le> s \<and> r = rise / of_int s"
proof -
  define s0 where "s0 = initialSteps rise (targetRiser dR)"
  obtain sA rA where A: "loopA rise (s0, rise / of_int s0) = (sA, rA)"
    by (cases "loopA rise (s0, rise / of_int s0)")
  have B: "loopB rise (sA, rA) = (s, r)"
    using assms A by (simp add: convergedSteps_def s0_def [symmetric] Let_def)
  have s0: "1 \<le> s0" by (simp add: s0_def initialSteps_ge_1)
  have pA: "rA = rise / of_int sA \<and> s0 \<le> sA"
    using loopA_props [OF _ _ A] s0 by simp
  show ?thesis using loopB_props [OF _ _ B] pA s0 by simp
qed

lemma le_div_int: "1 \<le> (n::int) \<Longrightarrow> (c \<le> x / of_int n) = (c * of_int n \<le> (x::real))"
  by (simp add: pos_le_divide_eq)
lemma div_le_int: "1 \<le> (n::int) \<Longrightarrow> (x / of_int n \<le> c) = ((x::real) \<le> c * of_int n)"
  by (simp add: pos_divide_le_eq)
lemma less_div_int: "1 \<le> (n::int) \<Longrightarrow> (c < x / of_int n) = (c * of_int n < (x::real))"
  by (simp add: pos_less_divide_eq)
lemma div_less_int: "1 \<le> (n::int) \<Longrightarrow> (x / of_int n < c) = ((x::real) < c * of_int n)"
  by (simp add: pos_divide_less_eq)

lemma convergedSteps_band:
  assumes c: "convergedSteps rise dR = (s, r)"
    and pos: "0 < rise"
    and k: "1 \<le> k" "k \<le> 200" "120 \<le> rise / of_int k" "rise / of_int k \<le> 210"
  shows "120 \<le> r \<and> r \<le> 210"
proof -
  define s0 where "s0 = initialSteps rise (targetRiser dR)"
  obtain sA rA where A: "loopA rise (s0, rise / of_int s0) = (sA, rA)"
    by (cases "loopA rise (s0, rise / of_int s0)")
  have B: "loopB rise (sA, rA) = (s, r)"
    using c A by (simp add: convergedSteps_def s0_def [symmetric] Let_def)
  have s0: "1 \<le> s0" by (simp add: s0_def initialSteps_ge_1)
  have pA: "rA = rise / of_int sA" "s0 \<le> sA" "sA \<le> max s0 200" "rA \<le> 210 \<or> 200 \<le> sA"
    "s0 < sA \<longrightarrow> 210 < rise / of_int (sA - 1)"
    using loopA_props [OF _ _ A] s0 by auto
  have sA: "1 \<le> sA" using s0 pA(2) by simp
  have pB: "r = rise / of_int s" "1 \<le> s" "s \<le> sA" "120 \<le> r \<or> s = 1"
    "s < sA \<longrightarrow> rise / of_int (s + 1) < 120"
    using loopB_props [OF _ _ B] pA(1) sA by auto
  have k1: "120 * of_int k \<le> rise" "rise \<le> 210 * of_int k"
    using k(3,4) le_div_int [OF k(1)] div_le_int [OF k(1)] by simp_all
  have kr: "of_int k \<le> (200::real)" using k(2) by linarith
  have up: "rise \<le> 42000" using k1(2) kr by linarith
  have lo: "120 \<le> rise"
  proof -
    have "(1::real) \<le> of_int k" using k(1) by linarith
    then show ?thesis using k1(1) by linarith
  qed
  have rA210: "rise \<le> 210 * of_int sA"
  proof (cases "rA \<le> 210")
    case True
    then show ?thesis unfolding pA(1) using div_le_int [OF sA] by simp
  next
    case False
    then have "200 \<le> sA" using pA(4) by simp
    then have "(200::real) \<le> of_int sA" by linarith
    then show ?thesis using up by linarith
  qed
  show ?thesis
  proof (cases "s0 < sA")
    case True
    then have "210 < rise / of_int (sA - 1)" using pA(5) by blast
    moreover have "1 \<le> sA - 1" using True s0 by simp
    ultimately have "210 * of_int (sA - 1) < rise" using less_div_int by blast
    then have "210 * of_int (sA - 1) < 210 * (of_int k :: real)" using k1(2) by linarith
    then have "sA - 1 < k" by simp
    then have "sA \<le> k" by simp
    then have "(of_int sA :: real) \<le> of_int k" by linarith
    then have "120 * of_int sA \<le> rise" using k1(1) by linarith
    then have rA120: "120 \<le> rA" unfolding pA(1) using le_div_int [OF sA] by simp
    then have "loopB rise (sA, rA) = (sA, rA)" by (simp add: loopB.simps [of rise sA rA])
    then have "s = sA" "r = rA" using B by simp_all
    moreover have "rA \<le> 210" unfolding pA(1) using rA210 div_le_int [OF sA] by simp
    ultimately show ?thesis using rA120 by simp
  next
    case False
    have low: "120 \<le> r"
    proof (cases "120 \<le> r")
      case True then show ?thesis .
    next
      case False
      then have "s = 1" using pB(4) by simp
      then show ?thesis using pB(1) lo by simp
    qed
    have "rise \<le> 210 * of_int s"
    proof (cases "s < sA")
      case True
      then have "rise / of_int (s + 1) < 120" using pB(5) by blast
      moreover have "1 \<le> s + 1" using pB(2) by simp
      ultimately have "rise < 120 * of_int (s + 1)" using div_less_int by blast
      then have "120 * (of_int k :: real) < 120 * of_int (s + 1)" using k1(1) by linarith
      then have "k < s + 1" by simp
      then have "k \<le> s" by simp
      then have "(of_int k :: real) \<le> of_int s" by linarith
      then show ?thesis using k1(2) by linarith
    next
      case False
      then have "s = sA" using pB(3) by simp
      then show ?thesis using rA210 by simp
    qed
    then have "r \<le> 210" unfolding pB(1) using div_le_int [OF pB(2)] by simp
    then show ?thesis using low by simp
  qed
qed

lemma loopA_ge: "fst p \<le> fst (loopA rise p)"
proof (induction rise p rule: loopA.induct)
  case (1 rise s r)
  show ?case
  proof (cases "r > 210 \<and> s < 200")
    case True
    then show ?thesis using "1.IH" by (simp add: loopA.simps [of rise s r])
  next
    case False
    then show ?thesis by (auto simp add: loopA.simps [of rise s r])
  qed
qed

lemma loopB_le: "fst (loopB rise p) \<le> fst p"
proof (induction rise p rule: loopB.induct)
  case (1 rise s r)
  show ?case
  proof (cases "r < 120 \<and> s > 1")
    case True
    then show ?thesis using "1.IH" by (simp add: loopB.simps [of rise s r])
  next
    case False
    then show ?thesis by (auto simp add: loopB.simps [of rise s r])
  qed
qed

lemma div_int_mono: "1 \<le> (n::int) \<Longrightarrow> x \<le> y \<Longrightarrow> x / of_int n \<le> (y::real) / of_int n"
  by (simp add: divide_right_mono)

lemma loopA_mono:
  "snd p1 = rise1 / of_int (fst p1) \<Longrightarrow> snd p2 = rise2 / of_int (fst p2) \<Longrightarrow>
   1 \<le> fst p1 \<Longrightarrow> fst p1 \<le> fst p2 \<Longrightarrow> rise1 \<le> rise2 \<Longrightarrow>
   fst (loopA rise1 p1) \<le> fst (loopA rise2 p2)"
proof (induction rise1 p1 arbitrary: p2 rule: loopA.induct)
  case (1 rise1 s1 r1)
  obtain s2 r2 where p2: "p2 = (s2, r2)" by (cases p2)
  have r1: "r1 = rise1 / of_int s1" and r2: "r2 = rise2 / of_int s2"
    and s1: "1 \<le> s1" and s12: "s1 \<le> s2"
    using "1.prems" p2 by simp_all
  show ?case
  proof (cases "r1 > 210 \<and> s1 < 200")
    case True
    then have step1: "loopA rise1 (s1, r1) = loopA rise1 (s1 + 1, rise1 / of_int (s1 + 1))"
      by (simp add: loopA.simps [of rise1 s1 r1])
    show ?thesis
    proof (cases "s1 = s2")
      case same: True
      have "r1 \<le> r2" unfolding r1 r2 same [symmetric] using s1 "1.prems"(5) by (rule div_int_mono)
      then have "r2 > 210 \<and> s2 < 200" using True same by simp
      then have step2: "loopA rise2 (s2, r2) = loopA rise2 (s2 + 1, rise2 / of_int (s2 + 1))"
        by (simp add: loopA.simps [of rise2 s2 r2])
      have "fst (loopA rise1 (s1 + 1, rise1 / of_int (s1 + 1)))
              \<le> fst (loopA rise2 (s2 + 1, rise2 / of_int (s2 + 1)))"
        using "1.IH" [OF True, of "(s2 + 1, rise2 / of_int (s2 + 1))"] s1 same "1.prems"(5)
        by simp
      then show ?thesis using step1 step2 p2 by simp
    next
      case False
      then have "s1 + 1 \<le> s2" using s12 by simp
      then have "fst (loopA rise1 (s1 + 1, rise1 / of_int (s1 + 1))) \<le> fst (loopA rise2 p2)"
        using "1.IH" [OF True, of p2] s1 r2 p2 "1.prems"(5) by simp
      then show ?thesis using step1 by simp
    qed
  next
    case False
    then have "loopA rise1 (s1, r1) = (s1, r1)"
      by (auto simp add: loopA.simps [of rise1 s1 r1])
    then show ?thesis using s12 loopA_ge [of p2 rise2] p2 by simp
  qed
qed

lemma loopB_mono:
  "snd p1 = rise1 / of_int (fst p1) \<Longrightarrow> snd p2 = rise2 / of_int (fst p2) \<Longrightarrow>
   1 \<le> fst p1 \<Longrightarrow> fst p1 \<le> fst p2 \<Longrightarrow> rise1 \<le> rise2 \<Longrightarrow>
   fst (loopB rise1 p1) \<le> fst (loopB rise2 p2)"
proof (induction rise2 p2 arbitrary: p1 rule: loopB.induct)
  case (1 rise2 s2 r2)
  obtain s1 r1 where p1: "p1 = (s1, r1)" by (cases p1)
  have r1: "r1 = rise1 / of_int s1" and r2: "r2 = rise2 / of_int s2"
    and s1: "1 \<le> s1" and s12: "s1 \<le> s2"
    using "1.prems" p1 by simp_all
  show ?case
  proof (cases "r2 < 120 \<and> s2 > 1")
    case True
    then have step2: "loopB rise2 (s2, r2) = loopB rise2 (s2 - 1, rise2 / of_int (s2 - 1))"
      by (simp add: loopB.simps [of rise2 s2 r2])
    show ?thesis
    proof (cases "s1 = s2")
      case same: True
      have "r1 \<le> r2" unfolding r1 r2 same [symmetric] using s1 "1.prems"(5) by (rule div_int_mono)
      then have "r1 < 120 \<and> s1 > 1" using True same by simp
      then have step1: "loopB rise1 (s1, r1) = loopB rise1 (s1 - 1, rise1 / of_int (s1 - 1))"
        by (simp add: loopB.simps [of rise1 s1 r1])
      have "fst (loopB rise1 (s1 - 1, rise1 / of_int (s1 - 1)))
              \<le> fst (loopB rise2 (s2 - 1, rise2 / of_int (s2 - 1)))"
        using "1.IH" [OF True, of "(s1 - 1, rise1 / of_int (s1 - 1))"] \<open>r1 < 120 \<and> s1 > 1\<close> same "1.prems"(5)
        by simp
      then show ?thesis using step1 step2 p1 by simp
    next
      case False
      then have "s1 \<le> s2 - 1" using s12 by simp
      then have "fst (loopB rise1 p1) \<le> fst (loopB rise2 (s2 - 1, rise2 / of_int (s2 - 1)))"
        using "1.IH" [OF True, of p1] s1 r1 p1 "1.prems"(5) by simp
      then show ?thesis using step2 by simp
    qed
  next
    case False
    then have "loopB rise2 (s2, r2) = (s2, r2)"
      by (auto simp add: loopB.simps [of rise2 s2 r2])
    then show ?thesis using s12 loopB_le [of rise1 p1] p1 by simp
  qed
qed

lemma targetRiser_pos: "0 < targetRiser dR"
  by (simp add: targetRiser_def clamp_def)

lemma initialSteps_mono:
  "0 < tr \<Longrightarrow> rise1 \<le> rise2 \<Longrightarrow> initialSteps rise1 tr \<le> initialSteps rise2 tr"
proof -
  assume "0 < tr" "rise1 \<le> rise2"
  then have "rise1 / tr + 1 / 2 \<le> rise2 / tr + 1 / 2" by (simp add: divide_right_mono)
  then have "Math_round (rise1 / tr) \<le> Math_round (rise2 / tr)"
    unfolding Math_round_def by (rule floor_mono)
  then show ?thesis by (simp add: initialSteps_def Let_def)
qed

lemma convergedSteps_mono:
  assumes "rise1 \<le> rise2"
  shows "fst (convergedSteps rise1 dR) \<le> fst (convergedSteps rise2 dR)"
proof -
  define a1 where "a1 = initialSteps rise1 (targetRiser dR)"
  define a2 where "a2 = initialSteps rise2 (targetRiser dR)"
  have a: "1 \<le> a1" "1 \<le> a2" "a1 \<le> a2"
    using initialSteps_ge_1 initialSteps_mono [OF targetRiser_pos assms] by (simp_all add: a1_def a2_def)
  obtain s1 r1 where A1: "loopA rise1 (a1, rise1 / of_int a1) = (s1, r1)"
    by (cases "loopA rise1 (a1, rise1 / of_int a1)")
  obtain s2 r2 where A2: "loopA rise2 (a2, rise2 / of_int a2) = (s2, r2)"
    by (cases "loopA rise2 (a2, rise2 / of_int a2)")
  have "fst (loopA rise1 (a1, rise1 / of_int a1)) \<le> fst (loopA rise2 (a2, rise2 / of_int a2))"
    using a assms by (intro loopA_mono) simp_all
  then have s12: "s1 \<le> s2" using A1 A2 by simp
  have p1: "r1 = rise1 / of_int s1" "1 \<le> s1"
    using loopA_props [OF _ _ A1] a by auto
  have p2: "r2 = rise2 / of_int s2"
    using loopA_props [OF _ _ A2] a by auto
  have "fst (loopB rise1 (s1, r1)) \<le> fst (loopB rise2 (s2, r2))"
    using p1 p2 s12 assms by (intro loopB_mono) simp_all
  then show ?thesis
    using A1 A2 by (simp add: convergedSteps_def Let_def a1_def [symmetric] a2_def [symmetric])
qed

lemma steps_calculateStairs:
  "steps (calculateStairs tR dR dT sT lD) = fst (convergedSteps (max 10 tR) dR)"
  by (simp add: calculateStairs_def stairLocals_def Let_def split: prod.splits)

lemma steps_stairLocals:
  "steps (stairLocals tR dR dT sT lD) = fst (convergedSteps (max 10 tR) dR)"
  by (simp add: stairLocals_def Let_def split: prod.splits)

lemma riser_stairLocals:
  "riser (stairLocals tR dR dT sT lD) = snd (convergedSteps (max 10 tR) dR)"
  by (simp add: stairLocals_def Let_def split: prod.splits)

text \<open>
  Claim C5. With the other arguments fixed, a larger \<^verbatim>\<open>totalRise\<close> never gives a smaller
  step count.
\<close>

theorem steps_monotone_in_totalRise:
  "totalRise1 \<le> totalRise2 \<Longrightarrow>
   steps (calculateStairs totalRise1 desiredRiser desiredTread stairType landingDepth)
     \<le> steps (calculateStairs totalRise2 desiredRiser desiredTread stairType landingDepth)"
  unfolding steps_calculateStairs by (rule convergedSteps_mono) simp

lemma convergedSteps_2700: "convergedSteps 2700 (Some 170) = (16, 2700 / 16)"
  by (simp add: convergedSteps_def initialSteps_def targetRiser_def js_or_def clamp_def
      Math_round_def loopA.simps loopB.simps)

lemma convergedSteps_3000: "convergedSteps 3000 (Some 170) = (18, 3000 / 18)"
  by (simp add: convergedSteps_def initialSteps_def targetRiser_def js_or_def clamp_def
      Math_round_def loopA.simps loopB.simps)

theorem steps_monotone_in_totalRise_witness:
  "(2700::real) \<le> 3000
   \<and> steps (calculateStairs 2700 (Some 170) (Some 280) ''straight'' None) = 16
   \<and> steps (calculateStairs 3000 (Some 170) (Some 280) ''straight'' None) = 18
   \<and> steps (calculateStairs 2700 (Some 170) (Some 280) ''straight'' None)
       \<le> steps (calculateStairs 3000 (Some 170) (Some 280) ''straight'' None)"
  using steps_monotone_in_totalRise
    [of 2700 3000 "Some 170" "Some 280" "''straight''" None]
  by (simp add: steps_calculateStairs convergedSteps_2700 convergedSteps_3000)

text \<open>
  The convergence of the riser in exact arithmetic. For a total rise of at least 10 the
  step count is at least 1 and the riser before rounding is \<^verbatim>\<open>totalRise / steps\<close>; when
  some step count from 1 to 200 puts \<^verbatim>\<open>totalRise / s\<close> into [120, 210], the riser before
  rounding lies in [120, 210]; loop A leaves the step count at most at 200, or at its
  first value when that was larger, and so does the returned step count. This is about
  \<open>loopA\<close> and \<open>loopB\<close> on integers, where \<open>s - 1\<close> is always smaller than \<open>s\<close>; what the
  loops do on doubles beyond \<open>2\<^sup>5\<^sup>3\<close> is the subject of the next subsection.
\<close>

lemma riser_converges_into_band:
  assumes "10 \<le> totalRise"
  shows
    "1 \<le> steps (calculateStairs totalRise desiredRiser desiredTread stairType landingDepth)
     \<and> riser (stairLocals totalRise desiredRiser desiredTread stairType landingDepth)
         = totalRise
           / of_int (steps (calculateStairs totalRise desiredRiser desiredTread stairType
               landingDepth))
     \<and> ((\<exists>k\<in>{1..200::int}. 120 \<le> totalRise / of_int k \<and> totalRise / of_int k \<le> 210)
          \<longrightarrow> 120 \<le> riser (stairLocals totalRise desiredRiser desiredTread stairType
                      landingDepth)
              \<and> riser (stairLocals totalRise desiredRiser desiredTread stairType landingDepth)
                  \<le> 210)
     \<and> fst (loopA totalRise
              (initialSteps totalRise (targetRiser desiredRiser),
               totalRise / of_int (initialSteps totalRise (targetRiser desiredRiser))))
         \<le> max (initialSteps totalRise (targetRiser desiredRiser)) 200
     \<and> steps (calculateStairs totalRise desiredRiser desiredTread stairType landingDepth)
         \<le> max (initialSteps totalRise (targetRiser desiredRiser)) 200"
proof -
  let ?s0 = "initialSteps totalRise (targetRiser desiredRiser)"
  have m: "max 10 totalRise = totalRise"
    using assms by simp
  obtain s r where c: "convergedSteps totalRise desiredRiser = (s, r)"
    by (cases "convergedSteps totalRise desiredRiser")
  note p = convergedSteps_props [OF c]
  have band: "120 \<le> r \<and> r \<le> 210"
    if "\<exists>k\<in>{1..200::int}. 120 \<le> totalRise / of_int k \<and> totalRise / of_int k \<le> 210"
  proof -
    from that obtain k
      where "1 \<le> k" "k \<le> 200" "120 \<le> totalRise / of_int k" "totalRise / of_int k \<le> 210"
      by auto
    with convergedSteps_band [OF c] assms show ?thesis
      by simp
  qed
  note a = loopA_bound [of totalRise "(?s0, totalRise / of_int ?s0)"]
  have "s = fst (loopB totalRise (loopA totalRise (?s0, totalRise / of_int ?s0)))"
    using c by (simp add: convergedSteps_def Let_def)
  then have "s \<le> fst (loopA totalRise (?s0, totalRise / of_int ?s0))"
    using loopB_le [of totalRise "loopA totalRise (?s0, totalRise / of_int ?s0)"] by simp
  then have f: "s \<le> max ?s0 200"
    using a by simp
  show ?thesis
    using p band a f by (simp add: steps_calculateStairs riser_stairLocals m c)
qed

subsection \<open>The convergence loops in double precision\<close>

lemma roundEven_eq: "of_int m - 1 / 2 < x \<Longrightarrow> x < of_int m + 1 / 2 \<Longrightarrow> roundEven x = m"
proof -
  assume a: "of_int m - 1 / 2 < x" "x < of_int m + 1 / 2"
  have "\<lfloor>x\<rfloor> = m \<or> \<lfloor>x\<rfloor> = m - 1" using a by linarith
  then show ?thesis
  proof
    assume f: "\<lfloor>x\<rfloor> = m"
    then have "x - of_int m < 1 / 2" using a by linarith
    then show ?thesis by (simp add: roundEven_def f Let_def)
  next
    assume f: "\<lfloor>x\<rfloor> = m - 1"
    then have "1 / 2 < x - of_int (m - 1)" using a by simp
    then show ?thesis by (simp add: roundEven_def f Let_def)
  qed
qed

lemma toDouble_eq:
  assumes "0 < x" "2 powr of_int e \<le> x" "x < 2 powr (of_int e + 1)"
    and "of_int m - 1 / 2 < x / 2 powr (of_int e - 52)" "x / 2 powr (of_int e - 52) < of_int m + 1 / 2"
  shows "toDouble x = 2 powr (of_int e - 52) * of_int m"
proof -
  have "\<lfloor>log 2 x\<rfloor> = e"
    using assms(1-3) by (simp add: floor_log_eq_powr_iff)
  then have "\<lfloor>log 2 \<bar>x\<bar>\<rfloor> = e" using assms(1) by simp
  then show ?thesis
    using assms(1) roundEven_eq [OF assms(4,5)] by (simp add: toDouble_def Let_def)
qed

lemma toDouble_quotient_23e17_120: "toDouble (23 * 10 ^ 17 / 120) = 19166666666666668"
  using toDouble_eq [of "23 * 10 ^ 17 / 120" 54 4791666666666667] by simp

lemma toDouble_decrement: "toDouble (19166666666666668 - 1) = 19166666666666668"
  using toDouble_eq [of "19166666666666668 - 1" 54 4791666666666667] by simp

lemma toDouble_riser_23e17:
  "toDouble (23 * 10 ^ 17 / 19166666666666668) = 8444249301319679 / 2 ^ 46"
  using toDouble_eq [of "23 * 10 ^ 17 / 19166666666666668" 6 8444249301319679]
  by (simp add: powr_minus)

lemma loopB64_stuck:
  assumes "snd p < 120" "1 < fst p"
    and "toDouble (fst p - 1) = fst p" "toDouble (rise / fst p) = snd p"
  shows "loopB64 rise p = None"
proof (cases "loopB64 rise p")
  case None
  then show ?thesis .
next
  case (Some y)
  have "\<not> (rise = rise \<and> p = p)"
  proof (rule loopB64.raw_induct [where P = "\<lambda>r q z. \<not> (r = rise \<and> q = p)", OF _ Some])
    fix f :: "real \<Rightarrow> real \<times> real \<Rightarrow> (real \<times> real) option"
      and r :: real and q z :: "real \<times> real"
    assume IH: "\<And>r q z. f r q = Some z \<Longrightarrow> \<not> (r = rise \<and> q = p)"
      and body: "(if snd q < 120 \<and> 1 < fst q
                  then f r (toDouble (fst q - 1), toDouble (r / toDouble (fst q - 1)))
                  else Some q) = Some z"
    show "\<not> (r = rise \<and> q = p)"
    proof
      assume e: "r = rise \<and> q = p"
      have "(toDouble (fst p - 1), toDouble (rise / toDouble (fst p - 1))) = p"
        using assms(3,4) by (simp add: prod_eq_iff)
      then have "f rise p = Some z"
        using body assms(1,2) e by simp
      then show False
        using IH by blast
    qed
  qed
  then show ?thesis by simp
qed

text \<open>
  Claim C1. The claim has the loops terminate for every total rise of at least 10. On
  doubles they do not: for \<^verbatim>\<open>calculateStairs(2.3e18, 120, ...)\<close> line 59 gives the step count
  19166666666666668 and line 61 a riser below 120 (119.99999999999999); in loop B
  \<^verbatim>\<open>steps -= 1\<close> gives back the same double, the doubles being 4 apart there, so neither
  \<^verbatim>\<open>steps\<close> nor \<^verbatim>\<open>riser\<close> ever changes and lines 59-63 do not return.
\<close>

theorem loopB_never_exits_at_23e17:
  "convergedSteps64 (max 10 (23 * 10 ^ 17)) (Some 120) = None
   \<and> toDouble (23 * 10 ^ 17 / 120) = 19166666666666668
   \<and> toDouble (23 * 10 ^ 17 / 19166666666666668) < 120
   \<and> toDouble (19166666666666668 - 1) = 19166666666666668"
proof -
  define rise :: real where "rise = 23 * 10 ^ 17"
  define s :: real where "s = 19166666666666668"
  define r :: real where "r = toDouble (rise / s)"
  have q: "toDouble (rise / 120) = s"
    unfolding rise_def s_def by (rule toDouble_quotient_23e17_120)
  have d: "toDouble (s - 1) = s"
    unfolding s_def by (rule toDouble_decrement)
  have "r = 8444249301319679 / 2 ^ 46"
    unfolding r_def rise_def s_def by (rule toDouble_riser_23e17)
  then have r: "r < 120" "\<not> 210 < r"
    by simp_all
  have s: "1 < s" "\<not> s < 1" "of_int (Math_round s) = s"
    unfolding s_def Math_round_def by simp_all
  have a: "loopA64 rise (s, r) = Some (s, r)"
    using r by (subst loopA64.simps) simp
  have b: "loopB64 rise (s, r) = None"
    using r s d by (intro loopB64_stuck) (simp_all add: r_def)
  have t: "targetRiser (Some 120) = 120"
    by (simp add: targetRiser_def js_or_def clamp_def)
  have "convergedSteps64 rise (Some 120) = None"
    by (simp add: convergedSteps64_def t q s r_def [symmetric] a b)
  moreover have "max 10 (23 * 10 ^ 17) = rise"
    by (simp add: rise_def)
  ultimately have n: "convergedSteps64 (max 10 (23 * 10 ^ 17)) (Some 120) = None"
    by (simp only:)
  have "toDouble (23 * 10 ^ 17 / 19166666666666668) < 120"
    unfolding toDouble_riser_23e17 by simp
  then show ?thesis
    using n toDouble_quotient_23e17_120 toDouble_decrement by blast
qed

text \<open>
  At the input of scenario A the loops on doubles return what the loops in exact
  arithmetic return, 16 steps and the riser 168.75.
\<close>

lemma toDouble_quotient_2700_170: "toDouble (2700 / 170) = 8940969848456132 / 2 ^ 49"
  using toDouble_eq [of "2700 / 170" 3 8940969848456132] by (simp add: powr_minus)

lemma toDouble_riser_2700: "toDouble (2700 / 16) = 168.75"
  using toDouble_eq [of "2700 / 16" 7 5937362789990400] by (simp add: powr_minus)

lemma convergedSteps64_2700: "convergedSteps64 (max 10 2700) (Some 170) = Some (16, 168.75)"
proof -
  define rise :: real where "rise = 2700"
  define r :: real where "r = toDouble (rise / 16)"
  have "Math_round (8940969848456132 / 2 ^ 49) = 16"
    by (simp add: Math_round_def)
  then have s: "of_int (Math_round (toDouble (rise / 170))) = (16 :: real)"
    unfolding rise_def toDouble_quotient_2700_170 by simp
  have rv: "r = 168.75"
    unfolding r_def rise_def by (rule toDouble_riser_2700)
  then have r: "\<not> r < 120" "\<not> 210 < r"
    by simp_all
  have a: "loopA64 rise (16, r) = Some (16, r)"
    using r by (subst loopA64.simps) simp
  have b: "loopB64 rise (16, r) = Some (16, r)"
    using r by (subst loopB64.simps) simp
  have t: "targetRiser (Some 170) = 170"
    by (simp add: targetRiser_def js_or_def clamp_def)
  have "convergedSteps64 rise (Some 170) = Some (16, r)"
    by (simp add: convergedSteps64_def t s r_def [symmetric] a b)
  moreover have "max 10 2700 = rise"
    by (simp add: rise_def)
  ultimately show ?thesis
    by (simp only: rv)
qed

subsection \<open>The two scenarios and the landing\<close>

lemma stairLocals_scenario_B: "stairLocals 2700 (Some 170) (Some 280) ''l'' (Some 900)
   = \<lparr>steps = 16, riser = 2700 / 16, tread = 280, totalRun = 5380,
      stringerLength = sqrt (5380 * 5380 + 2700 * 2700),
      angleDeg = Math_atan2 2700 5380 * 180 / pi\<rparr>"
  by (simp add: stairLocals_def convergedSteps_2700 js_or_def clamp_def landingOrDefault_def)

lemma stairLocals_scenario_A: "stairLocals 2700 (Some 170) (Some 280) ''straight'' None
   = \<lparr>steps = 16, riser = 2700 / 16, tread = 280, totalRun = 4480,
      stringerLength = sqrt (4480 * 4480 + 2700 * 2700),
      angleDeg = Math_atan2 2700 4480 * 180 / pi\<rparr>"
  by (simp add: stairLocals_def convergedSteps_2700 js_or_def clamp_def landingOrDefault_def)

lemma toFixed1_riser_A: "toFixed1 (675 / 4) = 844 / 5" by (simp add: toFixed1_def)
lemma toFixed1_280: "toFixed1 280 = 280" by (simp add: toFixed1_def)
lemma toFixed1_5380: "toFixed1 5380 = 5380" by (simp add: toFixed1_def)

text \<open>
  Claim C7. For the stair types \<^verbatim>\<open>'l'\<close> and \<^verbatim>\<open>'u'\<close> the total run before rounding is
  \<^verbatim>\<open>tread * steps\<close> plus the landing depth when that is a positive number, and plus 900
  when it is zero, negative or missing. \<^verbatim>\<open>calculateStairs(2700, 170, 280, 'l', 900)\<close> has the
  total run 5380 and the steps 16, riser 168.8 and tread 280 of the straight scenario.
\<close>

theorem landing_added_to_totalRun:
  "(stairType = ''l'' \<or> stairType = ''u'' \<longrightarrow>
      totalRun (stairLocals totalRise desiredRiser desiredTread stairType landingDepth)
        = tread (stairLocals totalRise desiredRiser desiredTread stairType landingDepth)
            * of_int (steps (stairLocals totalRise desiredRiser desiredTread stairType
                landingDepth))
          + (case landingDepth of None \<Rightarrow> 900 | Some d \<Rightarrow> if 0 < d then d else 900))
   \<and> totalRun (calculateStairs totalRise desiredRiser desiredTread stairType landingDepth)
       = toFixed1 (totalRun (stairLocals totalRise desiredRiser desiredTread stairType
           landingDepth))
   \<and> totalRun (calculateStairs 2700 (Some 170) (Some 280) ''l'' (Some 900)) = 5380
   \<and> steps (calculateStairs 2700 (Some 170) (Some 280) ''l'' (Some 900)) = 16
   \<and> riser (calculateStairs 2700 (Some 170) (Some 280) ''l'' (Some 900)) = 168.8
   \<and> tread (calculateStairs 2700 (Some 170) (Some 280) ''l'' (Some 900)) = 280
   \<and> steps (calculateStairs 2700 (Some 170) (Some 280) ''straight'' None) = 16
   \<and> riser (calculateStairs 2700 (Some 170) (Some 280) ''straight'' None) = 168.8
   \<and> tread (calculateStairs 2700 (Some 170) (Some 280) ''straight'' None) = 280"
proof -
  have g: "stairType = ''l'' \<or> stairType = ''u'' \<longrightarrow>
      totalRun (stairLocals totalRise desiredRiser desiredTread stairType landingDepth)
        = tread (stairLocals totalRise desiredRiser desiredTread stairType landingDepth)
            * of_int (steps (stairLocals totalRise desiredRiser desiredTread stairType
                landingDepth))
          + (case landingDepth of None \<Rightarrow> 900 | Some d \<Rightarrow> if 0 < d then d else 900)"
    by (auto simp add: stairLocals_def Let_def landingOrDefault_def
        split: prod.splits option.splits)
  have o: "totalRun (calculateStairs totalRise desiredRiser desiredTread stairType landingDepth)
       = toFixed1 (totalRun (stairLocals totalRise desiredRiser desiredTread stairType
           landingDepth))"
    by (simp add: calculateStairs_def Let_def)
  have c: "totalRun (calculateStairs 2700 (Some 170) (Some 280) ''l'' (Some 900)) = 5380
   \<and> steps (calculateStairs 2700 (Some 170) (Some 280) ''l'' (Some 900)) = 16
   \<and> riser (calculateStairs 2700 (Some 170) (Some 280) ''l'' (Some 900)) = 168.8
   \<and> tread (calculateStairs 2700 (Some 170) (Some 280) ''l'' (Some 900)) = 280
   \<and> steps (calculateStairs 2700 (Some 170) (Some 280) ''straight'' None) = 16
   \<and> riser (calculateStairs 2700 (Some 170) (Some 280) ''straight'' None) = 168.8
   \<and> tread (calculateStairs 2700 (Some 170) (Some 280) ''straight'' None) = 280"
    by (simp add: calculateStairs_def stairLocals_scenario_A stairLocals_scenario_B
        toFixed1_riser_A toFixed1_280 toFixed1_5380)
  show ?thesis
    using g o c by blast
qed

theorem landing_added_to_totalRun_witness:
  "(''u'' = ''l'' \<or> ''u'' = ''u'')
   \<and> totalRun (stairLocals 2700 (Some 170) (Some 280) ''u'' (Some 0))
       = tread (stairLocals 2700 (Some 170) (Some 280) ''u'' (Some 0))
           * of_int (steps (stairLocals 2700 (Some 170) (Some 280) ''u'' (Some 0)))
         + 900"
  using landing_added_to_totalRun [of "''u''" 2700 "Some 170" "Some 280" "Some 0"]
  by simp

subsection \<open>The stringer as a hypotenuse\<close>










text \<open>
  Claim C2 as stated, over the caller's \<^verbatim>\<open>totalRise\<close>, fails below the floor:
  \<^verbatim>\<open>calculateStairs(0, undefined, 160, 'straight', undefined)\<close> returns the total run 160
  and the stringer length 160.3, the hypotenuse for the rise 10 and not for the rise 0.
\<close>

lemma toFixed1_eq:
  assumes "0 \<le> x" "x < 10 ^ 21" "of_int n - 1 / 2 \<le> x * 10" "x * 10 < of_int n + 1 / 2"
  shows "toFixed1 x = of_int n / 10"
proof -
  have "\<lfloor>x * 10 + 1 / 2\<rfloor> = n"
    using assms(3,4) by (intro floor_unique) simp_all
  moreover have "\<not> 10 ^ 21 \<le> \<bar>x\<bar>" "\<not> x < 0"
    using assms(1,2) by simp_all
  ultimately show ?thesis
    unfolding toFixed1_def by simp
qed






subsection \<open>Scenario A\<close>

text \<open>
  Bounds on \<open>arctan\<close> from the partial sums of its alternating series, and on \<open>\<pi>\<close> from
  Machin's formula.
\<close>

lemma arctan_partial_sums:
  fixes x :: real
  assumes "0 < x" "x \<le> 1"
  shows "(\<Sum>i<2 * n. (- 1) ^ i * (1 / real (i * 2 + 1) * x ^ (i * 2 + 1))) \<le> arctan x"
    and "arctan x \<le> (\<Sum>i<2 * n + 1. (- 1) ^ i * (1 / real (i * 2 + 1) * x ^ (i * 2 + 1)))"
proof -
  have ax: "\<bar>x\<bar> \<le> 1" using assms by simp
  have pos: "0 < 1 / real (0 * 2 + 1) * x ^ (0 * 2 + 1)" using assms by simp
  have "(\<Sum>i. (- 1) ^ i * (1 / real (i * 2 + 1) * x ^ (i * 2 + 1)))
          \<in> {\<Sum>i<2 * n. (- 1) ^ i * (1 / real (i * 2 + 1) * x ^ (i * 2 + 1)) ..
             \<Sum>i<2 * n + 1. (- 1) ^ i * (1 / real (i * 2 + 1) * x ^ (i * 2 + 1))}"
    using summable_Leibniz(2) [OF zeroseq_arctan_series [OF ax] monoseq_arctan_series [OF ax]] pos
    by blast
  then show "(\<Sum>i<2 * n. (- 1) ^ i * (1 / real (i * 2 + 1) * x ^ (i * 2 + 1))) \<le> arctan x"
    and "arctan x \<le> (\<Sum>i<2 * n + 1. (- 1) ^ i * (1 / real (i * 2 + 1) * x ^ (i * 2 + 1)))"
    unfolding arctan_series [OF ax] by simp_all
qed

lemma arctan_fifth:
  "(148 / 750 :: real) \<le> arctan (1 / 5)" "arctan (1 / 5) \<le> (9253 / 46875 :: real)"
  using arctan_partial_sums(1) [of "1 / 5" 1] arctan_partial_sums(2) [of "1 / 5" 1]
  by (simp_all add: eval_nat_numeral)

lemma arctan_239:
  "arctan (1 / 239) \<le> (1 / 239 :: real)"
  "(1 / 239 - 1 / 40955757 :: real) \<le> arctan (1 / 239)"
  using arctan_partial_sums(1) [of "1 / 239" 1] arctan_partial_sums(2) [of "1 / 239" 0]
  by (simp_all add: eval_nat_numeral)

lemma pi_bounds: "3.14 < pi" "pi < 3.142"
  using machin arctan_fifth arctan_239 by simp_all

lemma arctan_135_224:
  "(69 / 400 :: real) * 3.142 \<le> arctan (135 / 224)"
  "arctan (135 / 224) < (623 / 3600 :: real) * 3.14"
proof -
  have "(69 / 400 :: real) * 3.142
          \<le> (\<Sum>i<2 * 3. (- 1) ^ i * (1 / real (i * 2 + 1) * (135 / 224) ^ (i * 2 + 1)))"
    by (simp add: eval_nat_numeral)
  then show "(69 / 400 :: real) * 3.142 \<le> arctan (135 / 224)"
    using arctan_partial_sums(1) [of "135 / 224" 3] by simp
  have "(\<Sum>i<2 * 2 + 1. (- 1) ^ i * (1 / real (i * 2 + 1) * (135 / 224) ^ (i * 2 + 1)))
          < (623 / 3600 :: real) * 3.14"
    by (simp add: eval_nat_numeral)
  then show "arctan (135 / 224) < (623 / 3600 :: real) * 3.14"
    using arctan_partial_sums(2) [of "135 / 224" 2] by simp
qed

lemma angle_A:
  "310.5 \<le> Math_atan2 2700 4480 * 180 / pi * 10"
  "Math_atan2 2700 4480 * 180 / pi * 10 < 311.5"
proof -
  have a: "Math_atan2 2700 4480 = arctan (135 / 224)" by (simp add: Math_atan2_def)
  have "69 / 400 * pi \<le> arctan (135 / 224)"
    using arctan_135_224(1) pi_bounds(2) by simp
  then show "310.5 \<le> Math_atan2 2700 4480 * 180 / pi * 10"
    unfolding a by (simp add: field_simps)
  have "arctan (135 / 224) < 623 / 3600 * pi"
    using arctan_135_224(2) pi_bounds(1) by simp
  then show "Math_atan2 2700 4480 * 180 / pi * 10 < 311.5"
    unfolding a by (simp add: field_simps)
qed

lemma toFixed1_angle_A: "toFixed1 (Math_atan2 2700 4480 * 180 / pi) = 31.1"
proof -
  have "0 \<le> Math_atan2 2700 4480 * 180 / pi"
    using angle_A(1) by simp
  moreover have "Math_atan2 2700 4480 * 180 / pi < 10 ^ 21"
    using angle_A(2) by simp
  ultimately have "toFixed1 (Math_atan2 2700 4480 * 180 / pi) = of_int 311 / 10"
    using angle_A by (intro toFixed1_eq) simp_all
  then show ?thesis by simp
qed

lemma sqrt_A: "52306.5 \<le> sqrt 27360400 * 10" "sqrt 27360400 * 10 < 52307.5"
proof -
  have "(5230.65::real)\<^sup>2 \<le> 27360400" by (simp add: power2_eq_square)
  then have "5230.65 \<le> sqrt 27360400" by (rule real_le_rsqrt)
  then show "52306.5 \<le> sqrt 27360400 * 10" by simp
  have "(27360400::real) < 5230.75\<^sup>2" by (simp add: power2_eq_square)
  then have "sqrt 27360400 < 5230.75" by (intro real_less_lsqrt) simp_all
  then show "sqrt 27360400 * 10 < 52307.5" by simp
qed

lemma toFixed1_sqrt_A: "toFixed1 (sqrt 27360400) = 5230.7"
proof -
  have "sqrt 27360400 < 10 ^ 21"
    using sqrt_A(2) by simp
  then have "toFixed1 (sqrt 27360400) = of_int 52307 / 10"
    using sqrt_A by (intro toFixed1_eq) simp_all
  then show ?thesis by simp
qed

text \<open>
  Claim C3. \<^verbatim>\<open>calculateStairs(2700, 170, 280, 'straight', undefined)\<close> returns 16 steps,
  the riser 168.8, the tread 280, the total run 4480 and the angle 31.1 degrees (with the
  stringer length 5230.7), and \<open>checkNorms\<close> of this result is the empty list.
\<close>

theorem scenario_A:
  "calculateStairs 2700 (Some 170) (Some 280) ''straight'' None
     = \<lparr>steps = 16, riser = 168.8, tread = 280, totalRun = 4480,
        stringerLength = 5230.7, angleDeg = 31.1\<rparr>
   \<and> checkNorms (calculateStairs 2700 (Some 170) (Some 280) ''straight'' None) = []"
proof -
  have g: "calculateStairs 2700 (Some 170) (Some 280) ''straight'' None
     = \<lparr>steps = 16, riser = 168.8, tread = 280, totalRun = 4480,
        stringerLength = 5230.7, angleDeg = 31.1\<rparr>"
    by (simp add: calculateStairs_def stairLocals_scenario_A toFixed1_riser_A toFixed1_280 toFixed1_angle_A toFixed1_sqrt_A)
      (simp add: toFixed1_def)
  have "checkNorms \<lparr>steps = 16, riser = 168.8, tread = 280, totalRun = 4480,
        stringerLength = 5230.7, angleDeg = 31.1\<rparr> = []"
    by (simp add: checkNorms_def pushIf_def)
  then show ?thesis using g by simp
qed

end
